theory Spec2Isabelle
  imports Complex_Main "HOL-Library.Word" "HOL-Library.AList" "HOL-Library.Multiset"
begin

section \<open>The workflow model of \<open>pkg/model/workflow.go\<close>\<close>

text \<open>
  The structs of the Go file and the functions that the properties below are about
  (\<open>On\<close>, \<open>Needs\<close>, \<open>GetMatrixes\<close>, \<open>commonKeysMatch\<close>, \<open>GetEnv\<close>, \<open>Type\<close>, \<open>GetJob\<close>),
  each embedded statement by statement. Conventions:
  \<^item> A Go map that the code iterates over (\<open>range\<close>) is an association list, and the loop
    visits the keys in the order of the list. Go picks the order afresh at every \<open>range\<close>.
    In \<open>commonKeysMatch\<close> the order decides only which of a mismatch and a panic is met
    first: where no comparison panics the result is the same for every order
    (\<open>commonKeysMatch_any_order\<close>); exclude filtering and include merging are stated for such
    inputs.
    A Go map has each key once; \<open>distinct (map fst m)\<close> says so where a theorem needs it.
    A \<open>nil\<close> map and an empty map read, range and delete alike and are both \<open>[]\<close>.
  \<^item> A pointer to a struct is the struct itself, or an \<open>option\<close> where the code can meet
    \<open>nil\<close>; a method that writes through its receiver returns the receiver it leaves behind.
  \<^item> A run-time panic and \<open>log.Fatal\<close> are values of type \<open>abort\<close>, on the left of a sum.
  \<^item> Strings are byte lists, and the functions on them are Go's on ASCII strings. Beyond ASCII
    \<open>strings.ToUpper\<close> leaves every byte as it is (Go consults the Unicode case tables) and the
    replacement of the regular expression works byte by byte (Go's works rune by rune).
\<close>

datatype abort =
  PanicTypeAssertion      \<comment> \<open>\<open>v.(map[string]interface{})\<close> on a value of another type\<close>
  | PanicUncomparable     \<comment> \<open>\<open>!=\<close> on two interface values of one uncomparable type\<close>
  | PanicNilDereference   \<comment> \<open>field access through a \<open>nil\<close> pointer\<close>
  | Fatal string          \<comment> \<open>\<open>log.Fatal(err)\<close> after a failed \<open>Decode\<close>, with the error it prints\<close>

subsection \<open>Values held in \<open>interface{}\<close>\<close>

text \<open>
  The values a decoded YAML document puts into an \<open>interface{}\<close>: \<open>nil\<close>, \<open>bool\<close>,
  \<open>int\<close>, \<open>float64\<close>, \<open>string\<close>, \<open>[]interface{}\<close> and \<open>map[string]interface{}\<close>
  (left out: timestamps, which the decoder turns into \<open>time.Time\<close>, and mappings with a key
  that is not a string, which it turns into \<open>map[interface{}]interface{}\<close>).
  Of a \<open>float64\<close> only its equality is needed. The two zeros are different values that
  \<open>==\<close> equates: \<open>Finite 0\<close> is \<open>+0\<close> and \<open>NegZero\<close> is \<open>-0\<close>. \<open>NaN\<close> differs from
  every value, itself included.
\<close>

datatype float64 = NaN | PosInf | NegInf | NegZero | Finite real

text \<open>\<open>x == y\<close> on two \<open>float64\<close>.\<close>

fun floatEq :: "float64 \<Rightarrow> float64 \<Rightarrow> bool" where
  "floatEq NaN y = False"
| "floatEq x NaN = False"
| "floatEq NegZero (Finite r) = (r = 0)"
| "floatEq (Finite r) NegZero = (r = 0)"
| "floatEq x y = (x = y)"

datatype iface =
  INil
  | IBool bool
  | IInt int
  | IFloat float64
  | IString string
  | ISlice "iface list"
  | IMap "(string \<times> iface) list"

type_synonym variant = "(string \<times> iface) list"

text \<open>
  Go's \<open>aVal != bVal\<close> on two interface values: values of different dynamic types are
  unequal; two values of the same dynamic type are compared, and the comparison panics when that
  type is a slice or a map.
\<close>

fun ifaceNe :: "iface \<Rightarrow> iface \<Rightarrow> abort + bool" where
  "ifaceNe (ISlice _) (ISlice _) = Inl PanicUncomparable"
| "ifaceNe (IMap _) (IMap _) = Inl PanicUncomparable"
| "ifaceNe (IFloat x) (IFloat y) = Inr (\<not> floatEq x y)"
| "ifaceNe a b = Inr (a \<noteq> b)"

subsection \<open>YAML nodes and \<open>Decode\<close>\<close>

text \<open>
  The \<open>Kind\<close> of a \<open>yaml.Node\<close>: the five kinds of the YAML library and \<open>NoKind\<close> for the
  zero value, which a field absent from the document keeps.
\<close>

datatype kind = DocumentNode | SequenceNode | MappingNode | ScalarNode | AliasNode | NoKind

text \<open>
  A \<open>yaml.Node\<close> as far as the code reads it: its \<open>Kind\<close>, and what the YAML library's
  \<open>Decode\<close> makes of the node at each of the three types the code decodes into: the error it
  returns (its message) or, when it returns none, the value that \<open>val\<close> holds afterwards.
  \<open>Decode\<close> itself is not embedded: \<open>On\<close> and \<open>Needs\<close> are stated for whatever it gives.
\<close>

record node =
  Kind :: kind
  DecodeString :: "string + string"
  DecodeStrings :: "string + string list"
  DecodeMap :: "string + (string \<times> iface) list"

subsection \<open>The structs\<close>

record containerSpec =
  Image :: string
  Env :: "(string \<times> string) list"
  Ports :: "64 word list"
  Volumes :: "string list"
  Options :: string
  Entrypoint :: string
  Args :: string
  Name :: string
  Reuse :: bool

record step =
  ID :: string
  If :: string
  Name :: string
  Uses :: string
  Run :: string
  WorkingDirectory :: string
  Shell :: string
  Env :: "(string \<times> string) list"
  With :: "(string \<times> string) list"
  ContinueOnError :: bool
  TimeoutMinutes :: "64 word"

record strategy =
  FailFast :: bool
  MaxParallel :: "64 word"
  Matrix :: "(string \<times> iface list) list"

record job =
  Name :: string
  RawNeeds :: node
  RunsOn :: string
  Env :: "(string \<times> string) list"
  If :: string
  Steps :: "step list"
  TimeoutMinutes :: "64 word"
  Container :: "containerSpec option"
  Services :: "(string \<times> containerSpec option) list"
  Strategy :: "strategy option"

record workflow =
  Name :: string
  RawOn :: node
  Env :: "(string \<times> string) list"
  Jobs :: "(string \<times> job option) list"

subsection \<open>\<open>Workflow.On\<close> and \<open>Job.Needs\<close>\<close>

text \<open>A \<open>nil\<close> slice is the empty list.\<close>

definition On :: "workflow \<Rightarrow> abort + string list" where
  "On w =
     (case Kind (RawOn w) of
        ScalarNode \<Rightarrow>
          (case DecodeString (RawOn w) of Inl err \<Rightarrow> Inl (Fatal err) | Inr val \<Rightarrow> Inr [val])
      | SequenceNode \<Rightarrow>
          (case DecodeStrings (RawOn w) of Inl err \<Rightarrow> Inl (Fatal err) | Inr val \<Rightarrow> Inr val)
      | MappingNode \<Rightarrow>
          (case DecodeMap (RawOn w) of
             Inl err \<Rightarrow> Inl (Fatal err)
           | Inr val \<Rightarrow> Inr (map fst val))
      | _ \<Rightarrow> Inr [])"

definition Needs :: "job \<Rightarrow> abort + string list" where
  "Needs j =
     (case Kind (RawNeeds j) of
        ScalarNode \<Rightarrow>
          (case DecodeString (RawNeeds j) of Inl err \<Rightarrow> Inl (Fatal err) | Inr val \<Rightarrow> Inr [val])
      | SequenceNode \<Rightarrow>
          (case DecodeStrings (RawNeeds j) of Inl err \<Rightarrow> Inl (Fatal err) | Inr val \<Rightarrow> Inr val)
      | _ \<Rightarrow> Inr [])"

subsection \<open>\<open>common.CartesianProduct\<close>\<close>

text \<open>
  Modelled from the spec: \<open>common.CartesianProduct\<close> of package \<open>pkg/common\<close>, which
  \<open>GetMatrixes\<close> calls and whose source is not part of the file embedded here. The spec (4.3,
  step 3): one variant per combination of (axis, one of its candidate values), total count the
  product of the axis list lengths, axis order and value order as declared. The first axis
  varies slowest.
\<close>

fun CartesianProduct :: "(string \<times> 'v list) list \<Rightarrow> (string \<times> 'v) list list" where
  "CartesianProduct [] = [[]]"
| "CartesianProduct ((axis, values) # axes) =
     concat (map (\<lambda>v. map (\<lambda>combination. (axis, v) # combination) (CartesianProduct axes)) values)"

subsection \<open>\<open>commonKeysMatch\<close>\<close>

text \<open>
  The loop over \<open>a\<close>; \<open>bVal, ok := b[aKey]\<close> is \<open>map_of b aKey\<close>, and \<open>!=\<close> is evaluated
  only when \<open>ok\<close> holds.
\<close>

fun commonKeysMatch :: "variant \<Rightarrow> variant \<Rightarrow> abort + bool" where
  "commonKeysMatch [] b = Inr True"
| "commonKeysMatch ((aKey, aVal) # a) b =
     (case map_of b aKey of
        None \<Rightarrow> commonKeysMatch a b
      | Some bVal \<Rightarrow>
          (case ifaceNe aVal bVal of
             Inl p \<Rightarrow> Inl p
           | Inr ne \<Rightarrow> if ne then Inr False else commonKeysMatch a b))"

subsection \<open>\<open>Job.GetMatrixes\<close>\<close>

text \<open>\<open>m[key]\<close> on a \<open>map[string][]interface{}\<close>: the \<open>nil\<close> slice when the key is absent.\<close>

definition index :: "(string \<times> iface list) list \<Rightarrow> string \<Rightarrow> iface list" where
  "index m key = (case map_of m key of None \<Rightarrow> [] | Some vs \<Rightarrow> vs)"

text \<open>
  The two loops \<open>includes = append(includes, v.(map[string]interface{}))\<close>: the type assertion
  panics at the first element that is not a map.
\<close>

fun assertMaps :: "iface list \<Rightarrow> abort + variant list" where
  "assertMaps [] = Inr []"
| "assertMaps (IMap m # vs) =
     (case assertMaps vs of Inl p \<Rightarrow> Inl p | Inr ms \<Rightarrow> Inr (m # ms))"
| "assertMaps (_ # vs) = Inl PanicTypeAssertion"

text \<open>
  The loop over \<open>excludes\<close> for one candidate: \<open>Inr True\<close> when it leaves by
  \<open>continue MATRIX\<close>, \<open>Inr False\<close> when it runs to its end.
\<close>

fun excluded :: "variant \<Rightarrow> variant list \<Rightarrow> abort + bool" where
  "excluded matrix [] = Inr False"
| "excluded matrix (exclude # excludes) =
     (case commonKeysMatch matrix exclude of
        Inl p \<Rightarrow> Inl p
      | Inr m \<Rightarrow> if m then Inr True else excluded matrix excludes)"

text \<open>\<open>for k, v := range include { matrix[k] = v }\<close>.\<close>

definition merge :: "variant \<Rightarrow> variant \<Rightarrow> variant" where
  "merge matrix include = fold (\<lambda>(k, v) m. AList.update k v m) include matrix"

text \<open>
  The loop over \<open>includes\<close> for one candidate. The candidate is a Go map, written in place:
  each \<open>commonKeysMatch\<close> sees what the includes before it have written.
\<close>

fun applyIncludes :: "variant \<Rightarrow> variant list \<Rightarrow> abort + variant" where
  "applyIncludes matrix [] = Inr matrix"
| "applyIncludes matrix (include # includes) =
     (case commonKeysMatch matrix include of
        Inl p \<Rightarrow> Inl p
      | Inr m \<Rightarrow> applyIncludes (if m then merge matrix include else matrix) includes)"

text \<open>The loop labelled \<open>MATRIX\<close>, with the slice \<open>matrixes\<close> it appends to.\<close>

fun matrixLoop ::
  "variant list \<Rightarrow> variant list \<Rightarrow> variant list \<Rightarrow> variant list \<Rightarrow> abort + variant list" where
  "matrixLoop [] excludes includes matrixes = Inr matrixes"
| "matrixLoop (matrix # matrixProduct) excludes includes matrixes =
     (case excluded matrix excludes of
        Inl p \<Rightarrow> Inl p
      | Inr skip \<Rightarrow>
          if skip then matrixLoop matrixProduct excludes includes matrixes
          else (case applyIncludes matrix includes of
                  Inl p \<Rightarrow> Inl p
                | Inr matrix' \<Rightarrow>
                    matrixLoop matrixProduct excludes includes (matrixes @ [matrix'])))"

text \<open>
  \<open>GetMatrixes\<close> returns its result and the job it leaves behind: the two \<open>delete\<close>s write to
  the matrix of the job's strategy. A panic leaves what was written before it.
\<close>

definition GetMatrixes :: "job \<Rightarrow> (abort + variant list) \<times> job" where
  "GetMatrixes j =
     (case Strategy j of
        None \<Rightarrow> (Inr [[]], j)
      | Some s \<Rightarrow>
          (case assertMaps (index (Matrix s) ''include'') of
             Inl p \<Rightarrow> (Inl p, j)
           | Inr includes \<Rightarrow>
               let m1 = AList.delete ''include'' (Matrix s);
                   j1 = j\<lparr>Strategy := Some (s\<lparr>Matrix := m1\<rparr>)\<rparr>
               in (case assertMaps (index m1 ''exclude'') of
                     Inl p \<Rightarrow> (Inl p, j1)
                   | Inr excludes \<Rightarrow>
                       let m2 = AList.delete ''exclude'' m1;
                           j2 = j\<lparr>Strategy := Some (s\<lparr>Matrix := m2\<rparr>)\<rparr>
                       in (matrixLoop (CartesianProduct m2) excludes includes [], j2))))"

subsection \<open>\<open>Step.GetEnv\<close>\<close>

text \<open>\<open>strings.ToUpper\<close> on ASCII.\<close>

definition upperByte :: "char \<Rightarrow> char" where
  "upperByte c =
     (case map_of (zip ''abcdefghijklmnopqrstuvwxyz'' ''ABCDEFGHIJKLMNOPQRSTUVWXYZ'') c of
        None \<Rightarrow> c
      | Some u \<Rightarrow> u)"

definition ToUpper :: "string \<Rightarrow> string" where
  "ToUpper s = map upperByte s"

text \<open>\<open>regexp.MustCompile("[^A-Z0-9-]").ReplaceAllString(s, "_")\<close>.\<close>

definition inClass :: "char \<Rightarrow> bool" where
  "inClass c = (c \<in> set ''ABCDEFGHIJKLMNOPQRSTUVWXYZ0123456789-'')"

definition ReplaceAllString :: "string \<Rightarrow> string" where
  "ReplaceAllString s = map (\<lambda>c. if inClass c then c else CHR ''_'') s"

definition envKey :: "string \<Rightarrow> string" where
  "envKey k = ''INPUT_'' @ ToUpper (ReplaceAllString (ToUpper k))"

definition GetEnv :: "step \<Rightarrow> (string \<rightharpoonup> string)" where
  "GetEnv s =
     fold (\<lambda>(k, v) rtnEnv. rtnEnv(envKey k \<mapsto> v)) (With s)
       (fold (\<lambda>(k, v) rtnEnv. rtnEnv(k \<mapsto> v)) (step.Env s) Map.empty)"

subsection \<open>\<open>Step.Type\<close>\<close>

datatype StepType =
  StepTypeRun
  | StepTypeUsesDockerURL
  | StepTypeUsesActionLocal
  | StepTypeUsesActionRemote

text \<open>\<open>strings.HasPrefix s prefix\<close>: \<open>len(s) >= len(prefix) && s[0:len(prefix)] == prefix\<close>.\<close>

definition HasPrefix :: "string \<Rightarrow> string \<Rightarrow> bool" where
  "HasPrefix s pre = (length pre \<le> length s \<and> take (length pre) s = pre)"

definition Type :: "step \<Rightarrow> StepType" where
  "Type s =
     (if Run s \<noteq> [] then StepTypeRun
      else if HasPrefix (Uses s) ''docker://'' then StepTypeUsesDockerURL
      else if HasPrefix (Uses s) ''./'' then StepTypeUsesActionLocal
      else StepTypeUsesActionRemote)"

subsection \<open>\<open>Workflow.GetJob\<close>\<close>

text \<open>
  The loop over \<open>w.Jobs\<close>, returning the \<open>*Job\<close> it found (\<open>None\<close> is \<open>nil\<close>) and the job map
  it leaves behind. A key of the map may hold a \<open>nil\<close> pointer; \<open>j.Name\<close> panics on it.
\<close>

fun lookupJob ::
  "(string \<times> job option) list \<Rightarrow> string \<Rightarrow> (abort + job option) \<times> (string \<times> job option) list" where
  "lookupJob [] jobID = (Inr None, [])"
| "lookupJob ((id', j) # jobs) jobID =
     (if jobID = id' then
        (case j of
           None \<Rightarrow> (Inl PanicNilDereference, (id', j) # jobs)
         | Some jb \<Rightarrow>
             let jb' = (if job.Name jb = [] then jb\<lparr>job.Name := id'\<rparr> else jb)
             in (Inr (Some jb'), (id', Some jb') # jobs))
      else (case lookupJob jobs jobID of (r, jobs') \<Rightarrow> (r, (id', j) # jobs')))"

definition GetJob :: "workflow \<Rightarrow> string \<Rightarrow> (abort + job option) \<times> workflow" where
  "GetJob w jobID = (case lookupJob (Jobs w) jobID of (r, jobs') \<Rightarrow> (r, w\<lparr>Jobs := jobs'\<rparr>))"

subsection \<open>Notions used to state the properties\<close>

text \<open>
  The matrix once \<open>include\<close> and \<open>exclude\<close> are deleted from it, and the maps among the
  elements stored under a key.
\<close>

definition axesOf :: "(string \<times> iface list) list \<Rightarrow> (string \<times> iface list) list" where
  "axesOf m = AList.delete ''exclude'' (AList.delete ''include'' m)"

definition entries :: "(string \<times> iface list) list \<Rightarrow> string \<Rightarrow> variant list" where
  "entries m key = [e. IMap e \<leftarrow> index m key]"

text \<open>
  A value that \<open>!=\<close> compares without a panic whatever the other operand is, and the equality
  of Go: \<open>!=\<close> evaluates to \<open>false\<close>.
\<close>

definition comparable :: "iface \<Rightarrow> bool" where
  "comparable v = (case v of ISlice _ \<Rightarrow> False | IMap _ \<Rightarrow> False | _ \<Rightarrow> True)"

definition goEqual :: "iface \<Rightarrow> iface \<Rightarrow> bool" where
  "goEqual a b = (ifaceNe a b = Inr False)"

text \<open>
  The partial-key match in the words of the specification: for every key present in both the
  variant and the entry, the values are equal.
\<close>

definition matches :: "variant \<Rightarrow> variant \<Rightarrow> bool" where
  "matches variant entry =
     (\<forall>key \<in> fst ` set variant \<inter> fst ` set entry.
        goEqual (the (map_of variant key)) (the (map_of entry key)))"

text \<open>
  Includes taken in declaration order, each merged when it matches the candidate as the
  includes before it have left it.
\<close>

definition mergeMatching :: "variant \<Rightarrow> variant list \<Rightarrow> variant" where
  "mergeMatching candidate includes =
     foldl (\<lambda>m include. if matches m include then merge m include else m) candidate includes"

text \<open>
  The reading of the include rule that merges every include matching the candidate as the
  Cartesian product produced it, the last write winning.
\<close>

definition mergeAllMatching :: "variant \<Rightarrow> variant list \<Rightarrow> variant" where
  "mergeAllMatching candidate includes =
     foldl merge candidate (filter (matches candidate) includes)"

text \<open>The lazy default of \<open>GetJob\<close>: the key as the name of a job that has none.\<close>

definition named :: "string \<Rightarrow> job \<Rightarrow> job" where
  "named k j = (if job.Name j = [] then j\<lparr>job.Name := k\<rparr> else j)"

subsection \<open>Example inputs\<close>

definition checkout :: step where
  "checkout = \<lparr>ID = [], step.If = [], step.Name = [], Uses = ''actions/checkout@v3'',
     Run = [], WorkingDirectory = [], Shell = [], step.Env = [], With = [],
     ContinueOnError = False, step.TimeoutMinutes = 0\<rparr>"

text \<open>
  Nodes by what the YAML library gives for them: a field the document does not have, a scalar,
  a sequence of scalars, and a mapping with scalar keys.
\<close>

definition absent :: node where
  "absent = \<lparr>Kind = NoKind, DecodeString = Inl ''unknown kind'',
     DecodeStrings = Inl ''unknown kind'', DecodeMap = Inl ''unknown kind''\<rparr>"

definition scalar :: "string \<Rightarrow> node" where
  "scalar v = \<lparr>Kind = ScalarNode, DecodeString = Inr v,
     DecodeStrings = Inl ''cannot unmarshal'', DecodeMap = Inl ''cannot unmarshal''\<rparr>"

definition sequence :: "string list \<Rightarrow> node" where
  "sequence vs = \<lparr>Kind = SequenceNode, DecodeString = Inl ''cannot unmarshal'',
     DecodeStrings = Inr vs, DecodeMap = Inl ''cannot unmarshal''\<rparr>"

definition mapping :: "(string \<times> iface) list \<Rightarrow> node" where
  "mapping m = \<lparr>Kind = MappingNode, DecodeString = Inl ''cannot unmarshal'',
     DecodeStrings = Inl ''cannot unmarshal'', DecodeMap = Inr m\<rparr>"

definition plainJob :: job where
  "plainJob = \<lparr>job.Name = [], RawNeeds = absent, RunsOn = ''ubuntu-latest'', job.Env = [],
     job.If = [], Steps = [], job.TimeoutMinutes = 0, Container = None, Services = [],
     Strategy = None\<rparr>"

definition matrixOf :: "(string \<times> iface list) list \<Rightarrow> strategy" where
  "matrixOf m = \<lparr>FailFast = False, MaxParallel = 0, Matrix = m\<rparr>"

definition withMatrix :: "(string \<times> iface list) list \<Rightarrow> job" where
  "withMatrix m = plainJob\<lparr>Strategy := Some (matrixOf m)\<rparr>"

definition osNode :: "(string \<times> iface list) list" where
  "osNode = [(''os'', [IString ''linux'', IString ''mac'']), (''node'', [IInt 14, IInt 16, IInt 18])]"

definition excludeAll :: "(string \<times> iface list) list" where
  "excludeAll = [(''a'', [IInt 1, IInt 2]), (''exclude'', [IMap []])]"

definition includeB :: "(string \<times> iface list) list" where
  "includeB = [(''a'', [IInt 1, IInt 2]), (''include'', [IMap [(''a'', IInt 1), (''b'', IInt 9)]])]"

definition excludeA1 :: "(string \<times> iface list) list" where
  "excludeA1 = [(''a'', [IInt 1, IInt 2]), (''exclude'', [IMap [(''a'', IInt 1)]])]"

definition twoIncludes :: "(string \<times> iface list) list" where
  "twoIncludes = [(''a'', [IInt 1]),
     (''include'', [IMap [(''a'', IInt 1), (''b'', IInt 2)], IMap [(''a'', IInt 1), (''b'', IInt 3)]])]"

definition nodeStep :: step where
  "nodeStep = checkout\<lparr>With := [(''node-version'', ''16'')]\<rparr>"

definition ci :: workflow where
  "ci = \<lparr>workflow.Name = ''ci'',
     RawOn = mapping [(''push'', IMap []), (''pull_request'', IMap [])],
     workflow.Env = [],
     Jobs = [(''build'', Some plainJob),
             (''test'', Some (plainJob\<lparr>RawNeeds := scalar ''build''\<rparr>))]\<rparr>"

text \<open>A list-valued axis entry and an exclude entry that holds the same list.\<close>

definition excludeList :: "(string \<times> iface list) list" where
  "excludeList = [(''a'', [ISlice [IInt 1, IInt 2]]),
     (''exclude'', [IMap [(''a'', ISlice [IInt 1, IInt 2])]])]"

section \<open>Step classification\<close>

lemma HasPrefix_append: "HasPrefix s pre \<longleftrightarrow> (\<exists>rest. s = pre @ rest)"
proof
  assume "HasPrefix s pre"
  then have "s = pre @ drop (length pre) s"
    unfolding HasPrefix_def by (metis append_take_drop_id)
  then show "\<exists>rest. s = pre @ rest" ..
next
  assume "\<exists>rest. s = pre @ rest"
  then show "HasPrefix s pre"
    unfolding HasPrefix_def by auto
qed

lemma Type_run: "Run s \<noteq> [] \<Longrightarrow> Type s = StepTypeRun"
  by (simp add: Type_def)

lemma Type_docker: "Run s = [] \<Longrightarrow> Uses s = ''docker://'' @ rest \<Longrightarrow> Type s = StepTypeUsesDockerURL"
  by (simp add: Type_def HasPrefix_def)

lemma Type_local: "Run s = [] \<Longrightarrow> Uses s = ''./'' @ rest \<Longrightarrow> Type s = StepTypeUsesActionLocal"
  by (simp add: Type_def HasPrefix_def)

lemma Type_remote:
  assumes "Run s = []"
    and "\<not> (\<exists>rest. Uses s = ''docker://'' @ rest)"
    and "\<not> (\<exists>rest. Uses s = ''./'' @ rest)"
  shows "Type s = StepTypeUsesActionRemote"
  using assms by (simp add: Type_def HasPrefix_append)

text \<open>
  Claim C7. \<open>Type\<close> classifies a step in this precedence: a non-empty \<open>run\<close> body makes it
  \<open>StepTypeRun\<close> whatever \<open>uses\<close> is; otherwise a \<open>uses\<close> that starts with \<open>docker://\<close> makes it
  \<open>StepTypeUsesDockerURL\<close>; otherwise a \<open>uses\<close> that starts with \<open>./\<close> makes it
  \<open>StepTypeUsesActionLocal\<close>; otherwise, an empty \<open>uses\<close> included, it is
  \<open>StepTypeUsesActionRemote\<close>.
\<close>

theorem C7_Type_precedence:
  "(Run s \<noteq> [] \<longrightarrow> Type s = StepTypeRun)
   \<and> (Run s = [] \<and> (\<exists>rest. Uses s = ''docker://'' @ rest) \<longrightarrow> Type s = StepTypeUsesDockerURL)
   \<and> (Run s = [] \<and> (\<exists>rest. Uses s = ''./'' @ rest) \<longrightarrow> Type s = StepTypeUsesActionLocal)
   \<and> (Run s = [] \<and> \<not> (\<exists>rest. Uses s = ''docker://'' @ rest) \<and> \<not> (\<exists>rest. Uses s = ''./'' @ rest)
        \<longrightarrow> Type s = StepTypeUsesActionRemote)
   \<and> (Run s = [] \<and> Uses s = [] \<longrightarrow> Type s = StepTypeUsesActionRemote)"
proof (intro conjI impI)
  assume "Run s \<noteq> []"
  then show "Type s = StepTypeRun" by (rule Type_run)
next
  assume "Run s = [] \<and> (\<exists>rest. Uses s = ''docker://'' @ rest)"
  then show "Type s = StepTypeUsesDockerURL" using Type_docker by blast
next
  assume "Run s = [] \<and> (\<exists>rest. Uses s = ''./'' @ rest)"
  then show "Type s = StepTypeUsesActionLocal" using Type_local by blast
next
  assume "Run s = [] \<and> \<not> (\<exists>rest. Uses s = ''docker://'' @ rest) \<and> \<not> (\<exists>rest. Uses s = ''./'' @ rest)"
  then show "Type s = StepTypeUsesActionRemote" using Type_remote by blast
next
  assume "Run s = [] \<and> Uses s = []"
  then show "Type s = StepTypeUsesActionRemote" by (simp add: Type_def HasPrefix_def)
qed

theorem C7_Type_precedence_witness:
  "Type (checkout\<lparr>Run := ''echo hi'', Uses := ''docker://alpine''\<rparr>) = StepTypeRun
   \<and> Type (checkout\<lparr>Uses := ''docker://alpine''\<rparr>) = StepTypeUsesDockerURL
   \<and> Type (checkout\<lparr>Uses := ''./local-action''\<rparr>) = StepTypeUsesActionLocal
   \<and> Type checkout = StepTypeUsesActionRemote
   \<and> Type (checkout\<lparr>Uses := []\<rparr>) = StepTypeUsesActionRemote"
  using C7_Type_precedence [of "checkout\<lparr>Run := ''echo hi'', Uses := ''docker://alpine''\<rparr>"]
    C7_Type_precedence [of "checkout\<lparr>Uses := ''docker://alpine''\<rparr>"]
    C7_Type_precedence [of "checkout\<lparr>Uses := ''./local-action''\<rparr>"]
    C7_Type_precedence [of checkout]
    C7_Type_precedence [of "checkout\<lparr>Uses := []\<rparr>"]
  by (simp add: checkout_def)


section \<open>Values and the partial-key match\<close>

lemma floatEq_trans: "floatEq x y \<Longrightarrow> floatEq y z \<Longrightarrow> floatEq x z"
  by (cases x; cases y; cases z) auto

lemma goEqual_iff:
  "goEqual a b \<longleftrightarrow>
   (\<exists>x y. a = IFloat x \<and> b = IFloat y \<and> floatEq x y)
   \<or> (a = b \<and> comparable a \<and> (\<forall>x. a \<noteq> IFloat x))"
  by (cases "(a, b)" rule: ifaceNe.cases) (auto simp: goEqual_def comparable_def)

lemma goEqual_trans: "goEqual a b \<Longrightarrow> goEqual b c \<Longrightarrow> goEqual a c"
  unfolding goEqual_iff using floatEq_trans by blast

lemma ifaceNe_comparable: "comparable b \<Longrightarrow> \<exists>r. ifaceNe a b = Inr r"
  by (cases "(a, b)" rule: ifaceNe.cases) (auto simp: comparable_def)

lemma commonKeysMatch_Inr:
  "commonKeysMatch a b = Inr r \<Longrightarrow>
   r = (\<forall>(k, av) \<in> set a. \<forall>bv. map_of b k = Some bv \<longrightarrow> goEqual av bv)"
proof (induction a arbitrary: r)
  case Nil
  then show ?case by simp
next
  case (Cons p a)
  obtain k av where p: "p = (k, av)" by (cases p)
  show ?case
  proof (cases "map_of b k")
    case None
    with Cons p show ?thesis by simp
  next
    case (Some bv)
    show ?thesis
    proof (cases "ifaceNe av bv")
      case (Inl e)
      with Cons.prems p Some show ?thesis by simp
    next
      case (Inr ne)
      show ?thesis
      proof (cases ne)
        case True
        with Cons.prems p Some Inr show ?thesis by (auto simp: goEqual_def)
      next
        case False
        with Cons.prems p Some Inr have "commonKeysMatch a b = Inr r" by simp
        from Cons.IH [OF this] p Some Inr False show ?thesis by (auto simp: goEqual_def)
      qed
    qed
  qed
qed

lemma matches_entries:
  assumes "distinct (map fst a)"
  shows "matches a b \<longleftrightarrow> (\<forall>(k, av) \<in> set a. \<forall>bv. map_of b k = Some bv \<longrightarrow> goEqual av bv)"
proof
  assume m: "matches a b"
  show "\<forall>(k, av) \<in> set a. \<forall>bv. map_of b k = Some bv \<longrightarrow> goEqual av bv"
  proof (clarify)
    fix k av bv
    assume ka: "(k, av) \<in> set a" and kb: "map_of b k = Some bv"
    from ka have "k \<in> fst ` set a" by force
    moreover from kb have "k \<in> fst ` set b" by (metis map_of_eq_None_iff option.distinct(1))
    ultimately have "goEqual (the (map_of a k)) (the (map_of b k))"
      using m unfolding matches_def by blast
    moreover from assms ka have "map_of a k = Some av" by simp
    ultimately show "goEqual av bv" using kb by simp
  qed
next
  assume r: "\<forall>(k, av) \<in> set a. \<forall>bv. map_of b k = Some bv \<longrightarrow> goEqual av bv"
  show "matches a b"
    unfolding matches_def
  proof
    fix key
    assume "key \<in> fst ` set a \<inter> fst ` set b"
    then have ka: "key \<in> fst ` set a" and kb: "key \<in> fst ` set b" by simp_all
    from ka obtain av where a: "map_of a key = Some av"
      by (metis map_of_eq_None_iff not_None_eq)
    from kb obtain bv where b: "map_of b key = Some bv"
      by (metis map_of_eq_None_iff not_None_eq)
    from a have "(key, av) \<in> set a" by (rule map_of_SomeD)
    with r b have "goEqual av bv" by blast
    with a b show "goEqual (the (map_of a key)) (the (map_of b key))" by simp
  qed
qed

lemma commonKeysMatch_matches:
  "distinct (map fst a) \<Longrightarrow> commonKeysMatch a b = Inr r \<Longrightarrow> r = matches a b"
  by (simp add: commonKeysMatch_Inr matches_entries)

lemma commonKeysMatch_True:
  "\<forall>(k, av) \<in> set a. \<forall>bv. map_of b k = Some bv \<longrightarrow> goEqual av bv \<Longrightarrow>
   commonKeysMatch a b = Inr True"
proof (induction a)
  case Nil
  show ?case by simp
next
  case (Cons p a)
  obtain k av where p: "p = (k, av)" by (cases p)
  from Cons have r: "commonKeysMatch a b = Inr True" by simp
  show ?case
  proof (cases "map_of b k")
    case None
    with r p show ?thesis by simp
  next
    case (Some bv)
    with Cons.prems p have "goEqual av bv" by simp
    with r p Some show ?thesis by (simp add: goEqual_def)
  qed
qed

lemma commonKeysMatch_True_iff:
  "distinct (map fst a) \<Longrightarrow> commonKeysMatch a b = Inr True \<longleftrightarrow> matches a b"
  using commonKeysMatch_matches [of a b True] commonKeysMatch_True [of a b]
  by (auto simp: matches_entries)

lemma commonKeysMatch_order:
  assumes "set a = set a'"
    and "commonKeysMatch a b = Inr r" and "commonKeysMatch a' b = Inr r'"
  shows "r = r'"
  using commonKeysMatch_Inr [OF assms(2)] commonKeysMatch_Inr [OF assms(3)] assms(1) by simp

lemma commonKeysMatch_total:
  assumes "\<forall>(k, bv) \<in> set b. comparable bv"
  shows "\<not> isl (commonKeysMatch a b)"
proof (induction a)
  case Nil
  show ?case by simp
next
  case (Cons p a)
  obtain k av where p: "p = (k, av)" by (cases p)
  show ?case
  proof (cases "map_of b k")
    case None
    with Cons p show ?thesis by simp
  next
    case (Some bv)
    then have "(k, bv) \<in> set b" by (rule map_of_SomeD)
    with assms have "comparable bv" by blast
    then obtain ne where "ifaceNe av bv = Inr ne" using ifaceNe_comparable by blast
    with Cons p Some show ?thesis by simp
  qed
qed

text \<open>
  Where no value of \<open>b\<close> is a slice or a map, no comparison panics and the result is the same
  in whatever order the loop visits the keys of \<open>a\<close>.
\<close>

lemma commonKeysMatch_any_order:
  assumes "\<forall>(k, bv) \<in> set b. comparable bv" and "set a' = set a"
  shows "commonKeysMatch a' b = commonKeysMatch a b"
proof -
  from assms(1) have "\<not> isl (commonKeysMatch a b)" and "\<not> isl (commonKeysMatch a' b)"
    by (rule commonKeysMatch_total)+
  then obtain r r' where r: "commonKeysMatch a b = Inr r" and r': "commonKeysMatch a' b = Inr r'"
    by (cases "commonKeysMatch a b"; cases "commonKeysMatch a' b") simp_all
  from commonKeysMatch_order [OF assms(2) r' r] r r' show ?thesis by simp
qed

subsection \<open>The exclude loop\<close>

lemma excluded_Inr:
  "distinct (map fst c) \<Longrightarrow> excluded c ex = Inr r \<Longrightarrow> r = (\<exists>e \<in> set ex. matches c e)"
proof (induction ex arbitrary: r)
  case Nil
  then show ?case by simp
next
  case (Cons e ex)
  show ?case
  proof (cases "commonKeysMatch c e")
    case (Inl p)
    with Cons.prems show ?thesis by simp
  next
    case (Inr m)
    have m: "m = matches c e" by (rule commonKeysMatch_matches [OF Cons.prems(1) Inr])
    show ?thesis
    proof (cases m)
      case True
      with Cons.prems Inr m show ?thesis by simp
    next
      case False
      with Cons.prems Inr have "excluded c ex = Inr r" by simp
      from Cons.IH [OF Cons.prems(1) this] False m show ?thesis by simp
    qed
  qed
qed

lemma excluded_total:
  assumes "\<forall>e \<in> set ex. \<forall>(k, bv) \<in> set e. comparable bv"
  shows "\<not> isl (excluded c ex)"
  using assms
proof (induction ex)
  case Nil
  show ?case by simp
next
  case (Cons e ex)
  then have "\<forall>(k, bv) \<in> set e. comparable bv" by simp
  then have "\<not> isl (commonKeysMatch c e)" by (rule commonKeysMatch_total)
  then obtain m where "commonKeysMatch c e = Inr m" by (cases "commonKeysMatch c e") simp_all
  with Cons show ?case by simp
qed


subsection \<open>Merging an include\<close>

lemma distinct_merge: "distinct (map fst m) \<Longrightarrow> distinct (map fst (merge m i))"
  unfolding merge_def
  by (induction i arbitrary: m) (auto simp: distinct_update)

lemma map_of_fold_update:
  "map_of (fold (\<lambda>(k, v) m. AList.update k v m) i m) = map_of m ++ map_of (rev i)"
  by (induction i arbitrary: m) (auto simp: update_conv' map_add_def fun_eq_iff split: option.splits)

lemma map_of_rev_distinct: "distinct (map fst xs) \<Longrightarrow> map_of (rev xs) = map_of xs"
proof (induction xs)
  case Nil
  show ?case by simp
next
  case (Cons p xs)
  obtain k v where p: "p = (k, v)" by (cases p)
  with Cons have "map_of xs k = None" by (simp add: map_of_eq_None_iff)
  with Cons p show ?case
    by (auto simp: fun_eq_iff map_add_def split: option.splits)
qed

lemma map_of_merge:
  "distinct (map fst i) \<Longrightarrow> map_of (merge m i) = map_of m ++ map_of i"
  by (simp add: merge_def map_of_fold_update map_of_rev_distinct)

lemma matches_maps:
  "matches a b \<longleftrightarrow> (\<forall>k av bv. map_of a k = Some av \<and> map_of b k = Some bv \<longrightarrow> goEqual av bv)"
proof
  assume m: "matches a b"
  show "\<forall>k av bv. map_of a k = Some av \<and> map_of b k = Some bv \<longrightarrow> goEqual av bv"
  proof (intro allI impI)
    fix k av bv
    assume h: "map_of a k = Some av \<and> map_of b k = Some bv"
    then have "k \<in> fst ` set a \<inter> fst ` set b"
      by (metis IntI map_of_eq_None_iff option.distinct(1))
    with m have "goEqual (the (map_of a k)) (the (map_of b k))"
      unfolding matches_def by blast
    with h show "goEqual av bv" by simp
  qed
next
  assume r: "\<forall>k av bv. map_of a k = Some av \<and> map_of b k = Some bv \<longrightarrow> goEqual av bv"
  show "matches a b"
    unfolding matches_def
  proof
    fix key
    assume "key \<in> fst ` set a \<inter> fst ` set b"
    then have ka: "key \<in> fst ` set a" and kb: "key \<in> fst ` set b" by simp_all
    from ka obtain av where a: "map_of a key = Some av"
      by (metis map_of_eq_None_iff not_None_eq)
    from kb obtain bv where b: "map_of b key = Some bv"
      by (metis map_of_eq_None_iff not_None_eq)
    with r a have "goEqual av bv" by blast
    with a b show "goEqual (the (map_of a key)) (the (map_of b key))" by simp
  qed
qed

text \<open>
  Merging a matching include leaves every key of the candidate with its value or with a value
  that \<open>==\<close> equates with it (the two zeros).
\<close>

lemma merge_keeps:
  assumes "matches m i" and "distinct (map fst i)" and "map_of m k = Some v"
  shows "\<exists>v'. map_of (merge m i) k = Some v' \<and> (v' = v \<or> goEqual v v')"
proof (cases "map_of i k")
  case None
  with assms(3) show ?thesis by (simp add: map_of_merge [OF assms(2)] map_add_def)
next
  case (Some bv)
  with assms(1,3) have "goEqual v bv" by (simp add: matches_maps)
  with Some show ?thesis by (simp add: map_of_merge [OF assms(2)] map_add_def)
qed

subsection \<open>The include loop\<close>

lemma distinct_mergeMatching:
  "distinct (map fst c) \<Longrightarrow> distinct (map fst (mergeMatching c incs))"
  unfolding mergeMatching_def
  by (induction incs arbitrary: c) (auto simp: distinct_merge)

lemma mergeMatching_Nil: "mergeMatching c [] = c"
  by (simp add: mergeMatching_def)

lemma mergeMatching_Cons:
  "mergeMatching c (i # incs) = mergeMatching (if matches c i then merge c i else c) incs"
  by (simp add: mergeMatching_def)

lemma applyIncludes_Inr:
  "distinct (map fst c) \<Longrightarrow> applyIncludes c incs = Inr v \<Longrightarrow> v = mergeMatching c incs"
proof (induction incs arbitrary: c)
  case Nil
  then show ?case by (simp add: mergeMatching_Nil)
next
  case (Cons i incs)
  show ?case
  proof (cases "commonKeysMatch c i")
    case (Inl p)
    with Cons.prems show ?thesis by simp
  next
    case (Inr m)
    have m: "m = matches c i" by (rule commonKeysMatch_matches [OF Cons.prems(1) Inr])
    let ?c = "if matches c i then merge c i else c"
    have d: "distinct (map fst ?c)" using Cons.prems(1) by (simp add: distinct_merge)
    from Cons.prems(2) Inr m have "applyIncludes ?c incs = Inr v" by simp
    from Cons.IH [OF d this] show ?thesis by (simp add: mergeMatching_Cons)
  qed
qed

lemma applyIncludes_total:
  assumes "\<forall>i \<in> set incs. \<forall>(k, bv) \<in> set i. comparable bv"
  shows "\<not> isl (applyIncludes c incs)"
  using assms
proof (induction incs arbitrary: c)
  case Nil
  show ?case by simp
next
  case (Cons i incs)
  then have "\<forall>(k, bv) \<in> set i. comparable bv" by simp
  then have "\<not> isl (commonKeysMatch c i)" by (rule commonKeysMatch_total)
  then obtain m where "commonKeysMatch c i = Inr m" by (cases "commonKeysMatch c i") simp_all
  with Cons show ?case by simp
qed

lemma mergeMatching_unchanged:
  "\<forall>i \<in> set incs. \<not> matches c i \<Longrightarrow> mergeMatching c incs = c"
  by (induction incs) (simp_all add: mergeMatching_Nil mergeMatching_Cons)

lemma mergeMatching_keeps:
  "\<forall>i \<in> set incs. distinct (map fst i) \<Longrightarrow> map_of c k = Some v \<Longrightarrow>
   \<exists>v'. map_of (mergeMatching c incs) k = Some v' \<and> (v' = v \<or> goEqual v v')"
proof (induction incs arbitrary: c v)
  case Nil
  then show ?case by (simp add: mergeMatching_Nil)
next
  case (Cons i incs)
  let ?c = "if matches c i then merge c i else c"
  have "\<exists>v1. map_of ?c k = Some v1 \<and> (v1 = v \<or> goEqual v v1)"
    using Cons.prems merge_keeps [of c i k v] by simp
  then obtain v1 where v1: "map_of ?c k = Some v1" and s1: "v1 = v \<or> goEqual v v1" by blast
  from Cons.prems(1) have "\<forall>i \<in> set incs. distinct (map fst i)" by simp
  from Cons.IH [OF this v1] obtain v' where v': "map_of (mergeMatching ?c incs) k = Some v'"
    and s2: "v' = v1 \<or> goEqual v1 v'" by blast
  from s1 s2 have "v' = v \<or> goEqual v v'" using goEqual_trans by blast
  with v' show ?case by (simp add: mergeMatching_Cons)
qed

subsection \<open>The loop over the candidates\<close>

lemma matrixLoop_Inr:
  "\<forall>c \<in> set cands. distinct (map fst c) \<Longrightarrow> matrixLoop cands ex incs acc = Inr out \<Longrightarrow>
   out = acc @ map (\<lambda>c. mergeMatching c incs) (filter (\<lambda>c. \<forall>e \<in> set ex. \<not> matches c e) cands)"
proof (induction cands arbitrary: acc)
  case Nil
  then show ?case by simp
next
  case (Cons c cands)
  then have d: "distinct (map fst c)" and ds: "\<forall>c \<in> set cands. distinct (map fst c)" by simp_all
  show ?case
  proof (cases "excluded c ex")
    case (Inl p)
    with Cons.prems show ?thesis by simp
  next
    case (Inr skip)
    have skip: "skip = (\<exists>e \<in> set ex. matches c e)" by (rule excluded_Inr [OF d Inr])
    show ?thesis
    proof (cases skip)
      case True
      with Cons.prems(2) Inr have "matrixLoop cands ex incs acc = Inr out" by simp
      from Cons.IH [OF ds this] True skip show ?thesis by simp
    next
      case False
      show ?thesis
      proof (cases "applyIncludes c incs")
        case (Inl p)
        with Cons.prems(2) Inr False show ?thesis by simp
      next
        case inc: (Inr v)
        have v: "v = mergeMatching c incs" by (rule applyIncludes_Inr [OF d inc])
        from Cons.prems(2) Inr False inc have "matrixLoop cands ex incs (acc @ [v]) = Inr out" by simp
        from Cons.IH [OF ds this] False skip v show ?thesis by simp
      qed
    qed
  qed
qed

lemma matrixLoop_total:
  assumes "\<forall>e \<in> set ex. \<forall>(k, bv) \<in> set e. comparable bv"
    and "\<forall>i \<in> set incs. \<forall>(k, bv) \<in> set i. comparable bv"
  shows "\<not> isl (matrixLoop cands ex incs acc)"
proof (induction cands arbitrary: acc)
  case Nil
  show ?case by simp
next
  case (Cons c cands)
  from assms(1) have "\<not> isl (excluded c ex)" by (rule excluded_total)
  then obtain skip where s: "excluded c ex = Inr skip" by (cases "excluded c ex") simp_all
  from assms(2) have "\<not> isl (applyIncludes c incs)" by (rule applyIncludes_total)
  then obtain v where v: "applyIncludes c incs = Inr v" by (cases "applyIncludes c incs") simp_all
  from s v Cons show ?case by simp
qed

lemma matrixLoop_plain: "matrixLoop cands [] [] acc = Inr (acc @ cands)"
  by (induction cands arbitrary: acc) simp_all


section \<open>The Cartesian product\<close>

lemma length_CartesianProduct:
  "length (CartesianProduct axes) = prod_list (map (\<lambda>(axis, values). length values) axes)"
proof (induction axes)
  case Nil
  show ?case by simp
next
  case (Cons p axes)
  obtain axis "values" where p: "p = (axis, values)" by (cases p)
  have "length (CartesianProduct (p # axes)) = length values * length (CartesianProduct axes)"
    by (simp add: p length_concat comp_def sum_list_triv)
  with Cons p show ?case by simp
qed

lemma set_CartesianProduct:
  "c \<in> set (CartesianProduct axes) \<longleftrightarrow>
   list_all2 (\<lambda>(k, v) (axis, values). k = axis \<and> v \<in> set values) c axes"
proof (induction axes arbitrary: c)
  case Nil
  show ?case by simp
next
  case (Cons p axes)
  obtain axis "values" where p: "p = (axis, values)" by (cases p)
  have "c \<in> set (CartesianProduct (p # axes)) \<longleftrightarrow>
      (\<exists>v c'. c = (axis, v) # c' \<and> v \<in> set values \<and> c' \<in> set (CartesianProduct axes))"
    by (auto simp: p)
  also have "\<dots> \<longleftrightarrow>
      (\<exists>v c'. c = (axis, v) # c' \<and> v \<in> set values
         \<and> list_all2 (\<lambda>(k, v) (axis, values). k = axis \<and> v \<in> set values) c' axes)"
    by (simp add: Cons)
  also have "\<dots> \<longleftrightarrow> list_all2 (\<lambda>(k, v) (axis, values). k = axis \<and> v \<in> set values) c (p # axes)"
    by (auto simp: p list_all2_Cons2)
  finally show ?case .
qed

lemma keys_CartesianProduct:
  "c \<in> set (CartesianProduct axes) \<Longrightarrow> map fst c = map fst axes"
proof (induction axes arbitrary: c)
  case Nil
  then show ?case by simp
next
  case (Cons p axes)
  obtain axis "values" where p: "p = (axis, values)" by (cases p)
  from Cons.prems obtain v c' where "c = (axis, v) # c'" and "c' \<in> set (CartesianProduct axes)"
    by (auto simp: p)
  with Cons.IH p show ?case by simp
qed

lemma distinct_product_step:
  "distinct values \<Longrightarrow> distinct cp \<Longrightarrow>
   distinct (concat (map (\<lambda>v. map (\<lambda>combination. (axis, v) # combination) cp) values))"
proof (induction "values")
  case Nil
  show ?case by simp
next
  case (Cons v "values")
  have "distinct (map (\<lambda>combination. (axis, v) # combination) cp)"
    using Cons.prems(2) by (simp add: distinct_map inj_on_def)
  moreover have "distinct (concat (map (\<lambda>v. map (\<lambda>combination. (axis, v) # combination) cp) values))"
    using Cons by simp
  moreover have "set (map (\<lambda>combination. (axis, v) # combination) cp)
      \<inter> set (concat (map (\<lambda>v. map (\<lambda>combination. (axis, v) # combination) cp) values)) = {}"
    using Cons.prems(1) by auto
  ultimately show ?case by simp
qed

lemma distinct_CartesianProduct:
  "\<forall>(axis, values) \<in> set axes. distinct values \<Longrightarrow> distinct (CartesianProduct axes)"
proof (induction axes)
  case Nil
  show ?case by simp
next
  case (Cons p axes)
  obtain axis "values" where p: "p = (axis, values)" by (cases p)
  from Cons p have "distinct values" and "distinct (CartesianProduct axes)" by simp_all
  then show ?case unfolding p CartesianProduct.simps by (rule distinct_product_step)
qed

section \<open>Matrix expansion\<close>

subsection \<open>Extracting \<open>include\<close> and \<open>exclude\<close>\<close>

lemma axesOf_filter: "axesOf m = filter (\<lambda>(k, vs). k \<noteq> ''include'' \<and> k \<noteq> ''exclude'') m"
  by (induction m) (auto simp: axesOf_def AList.delete_eq)

lemma map_of_axesOf:
  "map_of (axesOf m) k = (if k = ''include'' \<or> k = ''exclude'' then None else map_of m k)"
  by (simp add: axesOf_def delete_conv')

lemma distinct_axesOf: "distinct (map fst m) \<Longrightarrow> distinct (map fst (axesOf m))"
  by (simp add: axesOf_def distinct_delete)



lemma index_delete_include: "index (AList.delete ''include'' m) ''exclude'' = index m ''exclude''"
  by (simp add: index_def)

lemma assertMaps_Inr: "assertMaps vs = Inr ms \<Longrightarrow> ms = [e. IMap e \<leftarrow> vs]"
proof (induction vs arbitrary: ms rule: assertMaps.induct)
  case 1
  then show ?case by simp
next
  case (2 m vs)
  then show ?case by (cases "assertMaps vs") auto
qed simp_all

lemma assertMaps_total: "\<forall>v \<in> set vs. \<exists>m. v = IMap m \<Longrightarrow> \<not> isl (assertMaps vs)"
proof (induction vs)
  case Nil
  show ?case by simp
next
  case (Cons v vs)
  then obtain m where "v = IMap m" by auto
  moreover from Cons have "\<not> isl (assertMaps vs)" by simp
  ultimately show ?case by (cases "assertMaps vs") simp_all
qed

subsection \<open>\<open>GetMatrixes\<close> as a whole\<close>

lemma GetMatrixes_unfold:
  assumes "Strategy j = Some s"
    and "assertMaps (index (Matrix s) ''include'') = Inr incs"
    and "assertMaps (index (Matrix s) ''exclude'') = Inr ex"
  shows "GetMatrixes j =
     (matrixLoop (CartesianProduct (axesOf (Matrix s))) ex incs [],
      j\<lparr>Strategy := Some (s\<lparr>Matrix := axesOf (Matrix s)\<rparr>)\<rparr>)"
  using assms by (simp add: GetMatrixes_def index_delete_include axesOf_def Let_def)

lemma GetMatrixes_Inr_asserts:
  assumes "Strategy j = Some s" and "fst (GetMatrixes j) = Inr out"
  shows "assertMaps (index (Matrix s) ''include'') = Inr (entries (Matrix s) ''include'')
       \<and> assertMaps (index (Matrix s) ''exclude'') = Inr (entries (Matrix s) ''exclude'')"
proof -
  obtain incs where i: "assertMaps (index (Matrix s) ''include'') = Inr incs"
    using assms by (cases "assertMaps (index (Matrix s) ''include'')") (simp_all add: GetMatrixes_def)
  obtain ex where e: "assertMaps (index (Matrix s) ''exclude'') = Inr ex"
    using assms i
    by (cases "assertMaps (index (Matrix s) ''exclude'')")
       (simp_all add: GetMatrixes_def index_delete_include Let_def)
  from assertMaps_Inr [OF i] assertMaps_Inr [OF e] i e show ?thesis
    by (simp add: entries_def)
qed


lemma GetMatrixes_Inr:
  assumes "Strategy j = Some s" and "distinct (map fst (Matrix s))"
    and "fst (GetMatrixes j) = Inr out"
  shows "out = map (\<lambda>c. mergeMatching c (entries (Matrix s) ''include''))
           (filter (\<lambda>c. \<forall>e \<in> set (entries (Matrix s) ''exclude''). \<not> matches c e)
              (CartesianProduct (axesOf (Matrix s))))"
proof -
  let ?cands = "CartesianProduct (axesOf (Matrix s))"
  have d: "\<forall>c \<in> set ?cands. distinct (map fst c)"
    using distinct_axesOf [OF assms(2)] by (simp add: keys_CartesianProduct)
  have "matrixLoop ?cands (entries (Matrix s) ''exclude'') (entries (Matrix s) ''include'') [] = Inr out"
    using GetMatrixes_Inr_asserts [OF assms(1,3)] GetMatrixes_unfold [OF assms(1)] assms(3) by simp
  from matrixLoop_Inr [OF d this] show ?thesis by simp
qed

lemma GetMatrixes_total:
  assumes "Strategy j = Some s"
    and "\<forall>v \<in> set (index (Matrix s) ''include'') \<union> set (index (Matrix s) ''exclude'').
           \<exists>m. v = IMap m \<and> (\<forall>(k, x) \<in> set m. comparable x)"
  shows "\<not> isl (fst (GetMatrixes j))"
proof -
  have "\<not> isl (assertMaps (index (Matrix s) ''include''))"
    using assms(2) by (intro assertMaps_total) blast
  then obtain incs where i: "assertMaps (index (Matrix s) ''include'') = Inr incs"
    by (cases "assertMaps (index (Matrix s) ''include'')") simp_all
  have "\<not> isl (assertMaps (index (Matrix s) ''exclude''))"
    using assms(2) by (intro assertMaps_total) blast
  then obtain ex where e: "assertMaps (index (Matrix s) ''exclude'') = Inr ex"
    by (cases "assertMaps (index (Matrix s) ''exclude'')") simp_all
  have "\<forall>i \<in> set incs. \<forall>(k, bv) \<in> set i. comparable bv"
  proof
    fix m assume "m \<in> set incs"
    then have "IMap m \<in> set (index (Matrix s) ''include'')"
      using assertMaps_Inr [OF i] by auto
    with assms(2) show "\<forall>(k, bv) \<in> set m. comparable bv" by blast
  qed
  moreover have "\<forall>i \<in> set ex. \<forall>(k, bv) \<in> set i. comparable bv"
  proof
    fix m assume "m \<in> set ex"
    then have "IMap m \<in> set (index (Matrix s) ''exclude'')"
      using assertMaps_Inr [OF e] by auto
    with assms(2) show "\<forall>(k, bv) \<in> set m. comparable bv" by blast
  qed
  ultimately have "\<not> isl (matrixLoop (CartesianProduct (axesOf (Matrix s))) ex incs [])"
    by (intro matrixLoop_total)
  then show ?thesis by (simp add: GetMatrixes_unfold [OF assms(1) i e])
qed

lemma GetMatrixes_state_maps:
  assumes "Strategy j = Some s"
    and "\<forall>v \<in> set (index (Matrix s) ''include'') \<union> set (index (Matrix s) ''exclude'').
           \<exists>m. v = IMap m"
  shows "snd (GetMatrixes j) = j\<lparr>Strategy := Some (s\<lparr>Matrix := axesOf (Matrix s)\<rparr>)\<rparr>"
proof -
  have "\<not> isl (assertMaps (index (Matrix s) ''include''))"
    using assms(2) by (intro assertMaps_total) blast
  then obtain incs where i: "assertMaps (index (Matrix s) ''include'') = Inr incs"
    by (cases "assertMaps (index (Matrix s) ''include'')") simp_all
  have "\<not> isl (assertMaps (index (Matrix s) ''exclude''))"
    using assms(2) by (intro assertMaps_total) blast
  then obtain ex where e: "assertMaps (index (Matrix s) ''exclude'') = Inr ex"
    by (cases "assertMaps (index (Matrix s) ''exclude'')") simp_all
  show ?thesis by (simp add: GetMatrixes_unfold [OF assms(1) i e])
qed

lemma GetMatrixes_comparable:
  assumes "Strategy j = Some s" and "distinct (map fst (Matrix s))"
    and "\<forall>v \<in> set (index (Matrix s) ''include'') \<union> set (index (Matrix s) ''exclude'').
           \<exists>m. v = IMap m \<and> (\<forall>(k, x) \<in> set m. comparable x)"
  shows "fst (GetMatrixes j) =
     Inr (map (\<lambda>c. mergeMatching c (entries (Matrix s) ''include''))
           (filter (\<lambda>c. \<forall>e \<in> set (entries (Matrix s) ''exclude''). \<not> matches c e)
              (CartesianProduct (axesOf (Matrix s)))))"
proof -
  have "\<not> isl (fst (GetMatrixes j))" by (rule GetMatrixes_total [OF assms(1,3)])
  then obtain out where out: "fst (GetMatrixes j) = Inr out"
    by (cases "fst (GetMatrixes j)") simp_all
  from GetMatrixes_Inr [OF assms(1,2) out] out show ?thesis by simp
qed

lemma GetMatrixes_plain:
  assumes "Strategy j = Some s"
    and "index (Matrix s) ''include'' = []" and "index (Matrix s) ''exclude'' = []"
  shows "GetMatrixes j =
     (Inr (CartesianProduct (axesOf (Matrix s))),
      j\<lparr>Strategy := Some (s\<lparr>Matrix := axesOf (Matrix s)\<rparr>)\<rparr>)"
  using GetMatrixes_unfold [OF assms(1), of "[]" "[]"] assms(2,3)
  by (simp add: matrixLoop_plain)

lemmas example_defs =
  withMatrix_def matrixOf_def plainJob_def GetMatrixes_def index_def AList.delete_eq merge_def

lemma GetMatrixes_excludeAll: "fst (GetMatrixes (withMatrix excludeAll)) = Inr []"
  by (simp add: example_defs excludeAll_def)

lemma GetMatrixes_includeB:
  "fst (GetMatrixes (withMatrix includeB)) = Inr [[(''a'', IInt 1), (''b'', IInt 9)], [(''a'', IInt 2)]]"
  by (simp add: example_defs includeB_def)



lemma GetMatrixes_twoIncludes:
  "fst (GetMatrixes (withMatrix twoIncludes)) = Inr [[(''a'', IInt 1), (''b'', IInt 2)]]"
  by (simp add: example_defs twoIncludes_def)

lemma GetMatrixes_excludeList:
  "fst (GetMatrixes (withMatrix excludeList)) = Inl PanicUncomparable"
  by (simp add: example_defs excludeList_def)

text \<open>
  Claim C1. For every job whose strategy matrix has axes with value lists of sizes
  \<open>n\<^sub>1 \<dots> n\<^sub>k\<close> and no include or exclude entries, \<open>GetMatrixes\<close> returns exactly
  \<open>n\<^sub>1 * \<dots> * n\<^sub>k\<close> variants: a list is in the output iff it gives each axis, in order, one of
  its candidate values, and the output has no repetition when no value list has one.
\<close>

theorem C1_product_count:
  assumes "Strategy j = Some s"
    and "index (Matrix s) ''include'' = []" and "index (Matrix s) ''exclude'' = []"
  shows "\<exists>out. fst (GetMatrixes j) = Inr out
     \<and> length out = prod_list (map (\<lambda>(axis, values). length values) (axesOf (Matrix s)))
     \<and> (\<forall>c. c \<in> set out \<longleftrightarrow>
          list_all2 (\<lambda>(k, v) (axis, values). k = axis \<and> v \<in> set values) c (axesOf (Matrix s)))
     \<and> ((\<forall>(axis, values) \<in> set (axesOf (Matrix s)). distinct values) \<longrightarrow> distinct out)"
proof -
  have "fst (GetMatrixes j) = Inr (CartesianProduct (axesOf (Matrix s)))"
    by (simp add: GetMatrixes_plain [OF assms])
  then show ?thesis
    using length_CartesianProduct [of "axesOf (Matrix s)"]
      set_CartesianProduct [of _ "axesOf (Matrix s)"]
      distinct_CartesianProduct [of "axesOf (Matrix s)"]
    by simp
qed

theorem C1_product_count_witness:
  "\<exists>out. fst (GetMatrixes (withMatrix osNode)) = Inr out \<and> length out = 6 \<and> distinct out
     \<and> [(''os'', IString ''mac''), (''node'', IInt 16)] \<in> set out"
proof -
  have s: "Strategy (withMatrix osNode) = Some (matrixOf osNode)"
    by (simp add: withMatrix_def)
  have i: "index (Matrix (matrixOf osNode)) ''include'' = []"
    and e: "index (Matrix (matrixOf osNode)) ''exclude'' = []"
    by (simp_all add: matrixOf_def index_def osNode_def)
  have a: "axesOf (Matrix (matrixOf osNode)) = osNode"
    by (simp add: matrixOf_def axesOf_filter osNode_def)
  from C1_product_count [OF s i e] obtain out where o: "fst (GetMatrixes (withMatrix osNode)) = Inr out"
    and l: "length out = prod_list (map (\<lambda>(axis, values). length values) osNode)"
    and m: "\<forall>c. c \<in> set out \<longleftrightarrow>
          list_all2 (\<lambda>(k, v) (axis, values). k = axis \<and> v \<in> set values) c osNode"
    and d: "(\<forall>(axis, values) \<in> set osNode. distinct values) \<longrightarrow> distinct out"
    unfolding a by blast
  from l have "length out = 6" by (simp add: osNode_def)
  moreover from d have "distinct out" by (simp add: osNode_def)
  moreover from m have "[(''os'', IString ''mac''), (''node'', IInt 16)] \<in> set out"
    by (simp add: osNode_def)
  ultimately show ?thesis using o by blast
qed

text \<open>
  Claim C9. For every job with no strategy, \<open>GetMatrixes\<close> returns exactly one variant, the
  empty mapping, and leaves the job as it is.
\<close>

theorem C9_no_strategy: "Strategy j = None \<Longrightarrow> GetMatrixes j = (Inr [[]], j)"
  by (simp add: GetMatrixes_def)

theorem C9_no_strategy_witness: "GetMatrixes plainJob = (Inr [[]], plainJob)"
  using C9_no_strategy [of plainJob] by (simp add: plainJob_def)


text \<open>
  Claim C4. For every job with a strategy whose \<open>include\<close> and \<open>exclude\<close> lists hold maps,
  \<open>GetMatrixes\<close> leaves the job with the keys \<open>include\<close> and \<open>exclude\<close> removed from the matrix
  of its strategy and with every other entry of the matrix, and every other field, unchanged,
  whether the loop over the candidates then returns or panics in a comparison; and the call
  returns when the maps hold comparable values.
\<close>

theorem C4_matrix_mutated:
  "(Strategy j = Some s
      \<and> (\<forall>v \<in> set (index (Matrix s) ''include'') \<union> set (index (Matrix s) ''exclude'').
            \<exists>m. v = IMap m) \<longrightarrow>
      snd (GetMatrixes j) = j\<lparr>Strategy := Some (s\<lparr>Matrix :=
            filter (\<lambda>(k, vs). k \<noteq> ''include'' \<and> k \<noteq> ''exclude'') (Matrix s)\<rparr>)\<rparr>
      \<and> (\<exists>s'. Strategy (snd (GetMatrixes j)) = Some s'
            \<and> map_of (Matrix s') ''include'' = None \<and> map_of (Matrix s') ''exclude'' = None
            \<and> (\<forall>k. k \<noteq> ''include'' \<and> k \<noteq> ''exclude'' \<longrightarrow>
                   map_of (Matrix s') k = map_of (Matrix s) k)))
   \<and> (Strategy j = Some s
        \<and> (\<forall>v \<in> set (index (Matrix s) ''include'') \<union> set (index (Matrix s) ''exclude'').
              \<exists>m. v = IMap m \<and> (\<forall>(k, x) \<in> set m. comparable x))
        \<longrightarrow> (\<exists>out. fst (GetMatrixes j) = Inr out))"
proof (intro conjI impI)
  assume a: "Strategy j = Some s
      \<and> (\<forall>v \<in> set (index (Matrix s) ''include'') \<union> set (index (Matrix s) ''exclude'').
            \<exists>m. v = IMap m)"
  then have s: "Strategy j = Some s"
    and m: "\<forall>v \<in> set (index (Matrix s) ''include'') \<union> set (index (Matrix s) ''exclude'').
            \<exists>m. v = IMap m" by simp_all
  have j': "snd (GetMatrixes j) = j\<lparr>Strategy := Some (s\<lparr>Matrix := axesOf (Matrix s)\<rparr>)\<rparr>"
    by (rule GetMatrixes_state_maps [OF s m])
  then show "snd (GetMatrixes j) = j\<lparr>Strategy := Some (s\<lparr>Matrix :=
            filter (\<lambda>(k, vs). k \<noteq> ''include'' \<and> k \<noteq> ''exclude'') (Matrix s)\<rparr>)\<rparr>"
    by (simp add: axesOf_filter)
  have "Strategy (snd (GetMatrixes j)) = Some (s\<lparr>Matrix := axesOf (Matrix s)\<rparr>)"
    by (simp add: j')
  moreover have "map_of (Matrix (s\<lparr>Matrix := axesOf (Matrix s)\<rparr>)) ''include'' = None"
    and "map_of (Matrix (s\<lparr>Matrix := axesOf (Matrix s)\<rparr>)) ''exclude'' = None"
    and "\<forall>k. k \<noteq> ''include'' \<and> k \<noteq> ''exclude'' \<longrightarrow>
            map_of (Matrix (s\<lparr>Matrix := axesOf (Matrix s)\<rparr>)) k = map_of (Matrix s) k"
    by (simp_all add: map_of_axesOf)
  ultimately show "\<exists>s'. Strategy (snd (GetMatrixes j)) = Some s'
            \<and> map_of (Matrix s') ''include'' = None \<and> map_of (Matrix s') ''exclude'' = None
            \<and> (\<forall>k. k \<noteq> ''include'' \<and> k \<noteq> ''exclude'' \<longrightarrow>
                   map_of (Matrix s') k = map_of (Matrix s) k)"
    by blast
next
  assume a: "Strategy j = Some s
        \<and> (\<forall>v \<in> set (index (Matrix s) ''include'') \<union> set (index (Matrix s) ''exclude'').
              \<exists>m. v = IMap m \<and> (\<forall>(k, x) \<in> set m. comparable x))"
  then have "\<not> isl (fst (GetMatrixes j))" using GetMatrixes_total [of j s] by blast
  then show "\<exists>out. fst (GetMatrixes j) = Inr out" by (cases "fst (GetMatrixes j)") simp_all
qed

theorem C4_matrix_mutated_witness:
  "Strategy (withMatrix excludeA1) = Some (matrixOf excludeA1)
   \<and> index (Matrix (matrixOf excludeA1)) ''include'' = []
   \<and> index (Matrix (matrixOf excludeA1)) ''exclude'' = [IMap [(''a'', IInt 1)]]
   \<and> snd (GetMatrixes (withMatrix excludeA1)) = withMatrix [(''a'', [IInt 1, IInt 2])]
   \<and> (\<exists>out. fst (GetMatrixes (withMatrix excludeA1)) = Inr out)"
proof -
  have s: "Strategy (withMatrix excludeA1) = Some (matrixOf excludeA1)"
    by (simp add: withMatrix_def)
  have i: "index (Matrix (matrixOf excludeA1)) ''include'' = []"
    and e: "index (Matrix (matrixOf excludeA1)) ''exclude'' = [IMap [(''a'', IInt 1)]]"
    by (simp_all add: matrixOf_def excludeA1_def index_def)
  have m: "\<forall>v \<in> set (index (Matrix (matrixOf excludeA1)) ''include'')
          \<union> set (index (Matrix (matrixOf excludeA1)) ''exclude'').
        \<exists>m. v = IMap m \<and> (\<forall>(k, x) \<in> set m. comparable x)"
    by (simp add: i e comparable_def)
  then have m': "\<forall>v \<in> set (index (Matrix (matrixOf excludeA1)) ''include'')
          \<union> set (index (Matrix (matrixOf excludeA1)) ''exclude''). \<exists>m. v = IMap m"
    by blast
  from C4_matrix_mutated [of "withMatrix excludeA1" "matrixOf excludeA1"] s m m'
  have "snd (GetMatrixes (withMatrix excludeA1)) =
      (withMatrix excludeA1)\<lparr>Strategy := Some ((matrixOf excludeA1)\<lparr>Matrix :=
         filter (\<lambda>(k, vs). k \<noteq> ''include'' \<and> k \<noteq> ''exclude'') (Matrix (matrixOf excludeA1))\<rparr>)\<rparr>"
    and r: "\<exists>out. fst (GetMatrixes (withMatrix excludeA1)) = Inr out"
    by blast+
  then have "snd (GetMatrixes (withMatrix excludeA1)) = withMatrix [(''a'', [IInt 1, IInt 2])]"
    by (simp add: withMatrix_def matrixOf_def excludeA1_def)
  with s i e r show ?thesis by blast
qed

text \<open>
  Claim C2 asks that an exclude entry whose values equal the candidate's on every common key
  match the candidate and remove it. The code does so where \<open>!=\<close> can compare the values
  (\<open>commonKeysMatch_True_iff\<close>, \<open>GetMatrixes_comparable\<close>). On the matrix \<open>{a: [[1, 2]]}\<close> with
  exclude \<open>[{a: [1, 2]}]\<close> the only candidate and the only exclude entry hold the same list
  under their one common key, and \<open>commonKeysMatch\<close> panics in \<open>aVal != bVal\<close>: \<open>GetMatrixes\<close>
  gives no output where the claim gives the empty one. The claim's own example, the matrix
  \<open>{a: [1, 2]}\<close> with exclude \<open>[{}]\<close>, gives the empty output.
\<close>

theorem C2_equal_lists_panic:
  "CartesianProduct (axesOf excludeList) = [[(''a'', ISlice [IInt 1, IInt 2])]]
   \<and> entries excludeList ''exclude'' = [[(''a'', ISlice [IInt 1, IInt 2])]]
   \<and> commonKeysMatch [(''a'', ISlice [IInt 1, IInt 2])] [(''a'', ISlice [IInt 1, IInt 2])]
       = Inl PanicUncomparable
   \<and> fst (GetMatrixes (withMatrix excludeList)) = Inl PanicUncomparable
   \<and> fst (GetMatrixes (withMatrix excludeAll)) = Inr []"
  by (simp add: GetMatrixes_excludeList GetMatrixes_excludeAll)
     (simp add: excludeList_def axesOf_filter entries_def index_def)

text \<open>
  Claim C3, amended. For every job whose \<open>include\<close> and \<open>exclude\<close> lists hold maps of
  comparable values, \<open>GetMatrixes\<close> returns, and each surviving candidate is appended with the
  includes applied in declaration order, an include being merged (its keys written onto the
  candidate) iff it partial-key-matches the candidate as the earlier includes have left it. So
  an include that disagrees with a key written by an earlier include is not merged at all, a
  key once on the candidate is only ever overwritten by a value that \<open>==\<close> equates with the
  one it has, and a candidate that no include matches is appended unchanged. The order in which
  a comparison visits the keys of the candidate does not change its result. In particular the
  matrix \<open>{a: [1, 2]}\<close> with include \<open>[{a: 1, b: 9}]\<close> gives \<open>{a: 1, b: 9}\<close> and \<open>{a: 2}\<close>.
\<close>

theorem C3_include:
  "(Strategy j = Some s \<and> distinct (map fst (Matrix s))
      \<and> (\<forall>v \<in> set (index (Matrix s) ''include'') \<union> set (index (Matrix s) ''exclude'').
            \<exists>m. v = IMap m \<and> (\<forall>(k, x) \<in> set m. comparable x)) \<longrightarrow>
      fst (GetMatrixes j) =
        Inr (map (\<lambda>c. mergeMatching c (entries (Matrix s) ''include''))
              (filter (\<lambda>c. \<forall>e \<in> set (entries (Matrix s) ''exclude''). \<not> matches c e)
                 (CartesianProduct (axesOf (Matrix s))))))
   \<and> mergeMatching c [] = c
   \<and> mergeMatching c (i # includes) =
       mergeMatching (if matches c i then merge c i else c) includes
   \<and> (distinct (map fst i) \<longrightarrow> map_of (merge c i) = map_of c ++ map_of i)
   \<and> ((\<forall>i \<in> set includes. \<not> matches c i) \<longrightarrow> mergeMatching c includes = c)
   \<and> ((\<forall>i \<in> set includes. distinct (map fst i)) \<and> map_of c k = Some v \<longrightarrow>
        (\<exists>v'. map_of (mergeMatching c includes) k = Some v' \<and> (v' = v \<or> goEqual v v')))
   \<and> ((\<forall>(k, x) \<in> set i. comparable x) \<and> set c' = set c \<longrightarrow>
        commonKeysMatch c' i = commonKeysMatch c i)
   \<and> (distinct (map fst c) \<longrightarrow> (commonKeysMatch c i = Inr True \<longleftrightarrow> matches c i))
   \<and> fst (GetMatrixes (withMatrix includeB)) =
       Inr [[(''a'', IInt 1), (''b'', IInt 9)], [(''a'', IInt 2)]]"
proof (intro conjI impI)
  assume "Strategy j = Some s \<and> distinct (map fst (Matrix s))
      \<and> (\<forall>v \<in> set (index (Matrix s) ''include'') \<union> set (index (Matrix s) ''exclude'').
            \<exists>m. v = IMap m \<and> (\<forall>(k, x) \<in> set m. comparable x))"
  then have s: "Strategy j = Some s" and dm: "distinct (map fst (Matrix s))"
    and m: "\<forall>v \<in> set (index (Matrix s) ''include'') \<union> set (index (Matrix s) ''exclude'').
            \<exists>m. v = IMap m \<and> (\<forall>(k, x) \<in> set m. comparable x)" by simp_all
  show "fst (GetMatrixes j) =
        Inr (map (\<lambda>c. mergeMatching c (entries (Matrix s) ''include''))
              (filter (\<lambda>c. \<forall>e \<in> set (entries (Matrix s) ''exclude''). \<not> matches c e)
                 (CartesianProduct (axesOf (Matrix s)))))"
    by (rule GetMatrixes_comparable [OF s dm m])
next
  show "mergeMatching c [] = c" by (rule mergeMatching_Nil)
next
  show "mergeMatching c (i # includes) =
       mergeMatching (if matches c i then merge c i else c) includes"
    by (rule mergeMatching_Cons)
next
  assume "distinct (map fst i)"
  then show "map_of (merge c i) = map_of c ++ map_of i" by (rule map_of_merge)
next
  assume "\<forall>i \<in> set includes. \<not> matches c i"
  then show "mergeMatching c includes = c" by (rule mergeMatching_unchanged)
next
  assume "(\<forall>i \<in> set includes. distinct (map fst i)) \<and> map_of c k = Some v"
  then show "\<exists>v'. map_of (mergeMatching c includes) k = Some v' \<and> (v' = v \<or> goEqual v v')"
    using mergeMatching_keeps [of "includes" c k v] by blast
next
  assume "(\<forall>(k, x) \<in> set i. comparable x) \<and> set c' = set c"
  then show "commonKeysMatch c' i = commonKeysMatch c i"
    using commonKeysMatch_any_order [of i c' c] by blast
next
  assume "distinct (map fst c)"
  then show "commonKeysMatch c i = Inr True \<longleftrightarrow> matches c i" by (rule commonKeysMatch_True_iff)
next
  show "fst (GetMatrixes (withMatrix includeB)) =
       Inr [[(''a'', IInt 1), (''b'', IInt 9)], [(''a'', IInt 2)]]"
    by (rule GetMatrixes_includeB)
qed

lemma matches_a1_b2: "matches [(''a'', IInt 1)] [(''a'', IInt 1), (''b'', IInt 2)]"
  by (simp add: matches_def goEqual_def)

lemma matches_a1_b3: "matches [(''a'', IInt 1)] [(''a'', IInt 1), (''b'', IInt 3)]"
  by (simp add: matches_def goEqual_def)

text \<open>
  Claim C3 as stated fails: both includes match the candidate \<open>{a: 1}\<close>, merging both with
  the last write winning would give \<open>b = 3\<close>, and the code gives \<open>b = 2\<close>.
\<close>

theorem C3_last_write_counterexample:
  "commonKeysMatch [(''a'', IInt 1)] [(''a'', IInt 1), (''b'', IInt 2)] = Inr True
   \<and> commonKeysMatch [(''a'', IInt 1)] [(''a'', IInt 1), (''b'', IInt 3)] = Inr True
   \<and> mergeAllMatching [(''a'', IInt 1)]
        [[(''a'', IInt 1), (''b'', IInt 2)], [(''a'', IInt 1), (''b'', IInt 3)]]
       = [(''a'', IInt 1), (''b'', IInt 3)]
   \<and> fst (GetMatrixes (withMatrix twoIncludes)) = Inr [[(''a'', IInt 1), (''b'', IInt 2)]]"
  by (simp add: mergeAllMatching_def matches_a1_b2 matches_a1_b3 merge_def GetMatrixes_twoIncludes)

theorem C3_include_witness:
  "Strategy (withMatrix includeB) = Some (matrixOf includeB)
   \<and> distinct (map fst (Matrix (matrixOf includeB)))
   \<and> index (Matrix (matrixOf includeB)) ''include'' = [IMap [(''a'', IInt 1), (''b'', IInt 9)]]
   \<and> index (Matrix (matrixOf includeB)) ''exclude'' = []
   \<and> comparable (IInt 1) \<and> comparable (IInt 9)
   \<and> fst (GetMatrixes (withMatrix includeB)) =
       Inr (map (\<lambda>c. mergeMatching c [[(''a'', IInt 1), (''b'', IInt 9)]])
             [[(''a'', IInt 1)], [(''a'', IInt 2)]])"
proof -
  have s: "Strategy (withMatrix includeB) = Some (matrixOf includeB)"
    by (simp add: withMatrix_def)
  have d: "distinct (map fst (Matrix (matrixOf includeB)))"
    by (simp add: matrixOf_def includeB_def)
  have i: "index (Matrix (matrixOf includeB)) ''include'' = [IMap [(''a'', IInt 1), (''b'', IInt 9)]]"
    and e: "index (Matrix (matrixOf includeB)) ''exclude'' = []"
    by (simp_all add: matrixOf_def includeB_def index_def)
  have c: "comparable (IInt 1) \<and> comparable (IInt 9)"
    by (simp add: comparable_def)
  have m: "\<forall>v \<in> set (index (Matrix (matrixOf includeB)) ''include'')
          \<union> set (index (Matrix (matrixOf includeB)) ''exclude'').
        \<exists>m. v = IMap m \<and> (\<forall>(k, x) \<in> set m. comparable x)"
    by (simp add: i e c)
  from C3_include [of "withMatrix includeB" "matrixOf includeB"] s d m
  have "fst (GetMatrixes (withMatrix includeB)) =
        Inr (map (\<lambda>c. mergeMatching c (entries (Matrix (matrixOf includeB)) ''include''))
              (filter (\<lambda>c. \<forall>e \<in> set (entries (Matrix (matrixOf includeB)) ''exclude''). \<not> matches c e)
                 (CartesianProduct (axesOf (Matrix (matrixOf includeB))))))"
    by blast
  moreover have "entries (Matrix (matrixOf includeB)) ''include'' = [[(''a'', IInt 1), (''b'', IInt 9)]]"
    and "entries (Matrix (matrixOf includeB)) ''exclude'' = []"
    and "CartesianProduct (axesOf (Matrix (matrixOf includeB))) = [[(''a'', IInt 1)], [(''a'', IInt 2)]]"
    by (simp_all add: matrixOf_def includeB_def entries_def index_def axesOf_filter)
  ultimately have "fst (GetMatrixes (withMatrix includeB)) =
       Inr (map (\<lambda>c. mergeMatching c [[(''a'', IInt 1), (''b'', IInt 9)]])
             [[(''a'', IInt 1)], [(''a'', IInt 2)]])"
    by simp
  with s d i e c show ?thesis by blast
qed




section \<open>The environment of a step\<close>

lemma fold_env_None:
  "fold (\<lambda>(k, v) rtnEnv. rtnEnv(k \<mapsto> v)) env m x = None \<longleftrightarrow> m x = None \<and> x \<notin> fst ` set env"
  by (induction env arbitrary: m) (auto split: if_splits)

lemma envKey_node_version: "envKey ''node-version'' = ''INPUT_NODE-VERSION''"
  by (simp add: envKey_def ToUpper_def ReplaceAllString_def upperByte_def inClass_def)

text \<open>
  Claim C6, amended. For a step with \<open>with = {"node-version": "16"}\<close>, \<open>GetEnv\<close> produces
  the entry with key \<open>INPUT_NODE-VERSION\<close> (the hyphen is kept) and value \<open>"16"\<close>; the key
  \<open>INPUT_NODE_VERSION\<close> is in the result only when the declared \<open>env\<close> of the step has it.
\<close>

theorem C6_input_key_keeps_hyphen:
  assumes "With s = [(''node-version'', ''16'')]"
  shows "GetEnv s ''INPUT_NODE-VERSION'' = Some ''16''
     \<and> (GetEnv s ''INPUT_NODE_VERSION'' = None \<longleftrightarrow> ''INPUT_NODE_VERSION'' \<notin> fst ` set (step.Env s))"
  using assms by (simp add: GetEnv_def envKey_node_version fold_env_None)

theorem C6_input_key_keeps_hyphen_witness: "GetEnv nodeStep ''INPUT_NODE-VERSION'' = Some ''16''"
  using C6_input_key_keeps_hyphen [of nodeStep] by (simp add: nodeStep_def checkout_def)

text \<open>
  Claim C6 as stated fails: with no declared \<open>env\<close>, the result has no key
  \<open>INPUT_NODE_VERSION\<close>.
\<close>

theorem C6_underscore_key_counterexample: "GetEnv nodeStep ''INPUT_NODE_VERSION'' = None"
  by (simp add: GetEnv_def nodeStep_def checkout_def envKey_node_version)


section \<open>Job lookup\<close>

lemma named_idem: "named k (named k j) = named k j"
  by (simp add: named_def)

lemma lookupJob_hit:
  "map_of jobs k = Some (Some j) \<Longrightarrow>
   lookupJob jobs k = (Inr (Some (named k j)), AList.update k (Some (named k j)) jobs)"
  by (induction jobs) (auto simp: named_def Let_def)

lemma lookupJob_miss: "map_of jobs k = None \<Longrightarrow> lookupJob jobs k = (Inr None, jobs)"
  by (induction jobs) auto

lemma lookupJob_nil: "map_of jobs k = Some None \<Longrightarrow> lookupJob jobs k = (Inl PanicNilDereference, jobs)"
  by (induction jobs) auto

lemma lookupJob_idem: "lookupJob jobs k = (r, jobs') \<Longrightarrow> lookupJob jobs' k = (r, jobs')"
proof (cases "map_of jobs k")
  case None
  then show "lookupJob jobs k = (r, jobs') \<Longrightarrow> lookupJob jobs' k = (r, jobs')"
    by (simp add: lookupJob_miss)
next
  case (Some p)
  assume a: "lookupJob jobs k = (r, jobs')"
  show "lookupJob jobs' k = (r, jobs')"
  proof (cases p)
    case None
    with Some a show ?thesis by (simp add: lookupJob_nil)
  next
    case (Some j)
    with \<open>map_of jobs k = Some p\<close> have h: "map_of jobs k = Some (Some j)" by simp
    from a lookupJob_hit [OF h]
    have r: "r = Inr (Some (named k j))" and j': "jobs' = AList.update k (Some (named k j)) jobs"
      by simp_all
    have "map_of jobs' k = Some (Some (named k j))"
      by (simp add: j' update_conv')
    from lookupJob_hit [OF this] show ?thesis
      by (simp add: r j' named_idem)
  qed
qed


text \<open>
  Claim C8. \<open>GetJob\<close> on an identifier of the job map whose job has an empty name returns
  that job with its name set to the identifier and stores it; repeating the lookup returns the
  same job and changes nothing more; \<open>GetJob\<close> on an absent identifier returns \<open>nil\<close>, with
  no panic, and leaves the workflow as it is.
\<close>

theorem C8_GetJob:
  "(map_of (Jobs w) jobID = Some (Some j) \<and> job.Name j = [] \<longrightarrow>
      (\<exists>w'. GetJob w jobID = (Inr (Some (j\<lparr>job.Name := jobID\<rparr>)), w')
          \<and> map_of (Jobs w') jobID = Some (Some (j\<lparr>job.Name := jobID\<rparr>))
          \<and> GetJob w' jobID = (Inr (Some (j\<lparr>job.Name := jobID\<rparr>)), w')))
   \<and> (jobID \<notin> fst ` set (Jobs w) \<longrightarrow> GetJob w jobID = (Inr None, w))"
proof (intro conjI impI)
  assume a: "map_of (Jobs w) jobID = Some (Some j) \<and> job.Name j = []"
  let ?j = "j\<lparr>job.Name := jobID\<rparr>"
  let ?w = "w\<lparr>Jobs := AList.update jobID (Some ?j) (Jobs w)\<rparr>"
  from a have n: "named jobID j = ?j" by (simp add: named_def)
  from a have l: "lookupJob (Jobs w) jobID = (Inr (Some ?j), AList.update jobID (Some ?j) (Jobs w))"
    using lookupJob_hit [of "Jobs w" jobID j] by (simp add: n)
  then have 1: "GetJob w jobID = (Inr (Some ?j), ?w)"
    by (simp add: GetJob_def)
  have 2: "map_of (Jobs ?w) jobID = Some (Some ?j)"
    by (simp add: update_conv')
  have "lookupJob (Jobs ?w) jobID = (Inr (Some ?j), Jobs ?w)"
    using lookupJob_idem [OF l] by simp
  then have 3: "GetJob ?w jobID = (Inr (Some ?j), ?w)"
    by (simp add: GetJob_def)
  from 1 2 3 show "\<exists>w'. GetJob w jobID = (Inr (Some ?j), w')
          \<and> map_of (Jobs w') jobID = Some (Some ?j)
          \<and> GetJob w' jobID = (Inr (Some ?j), w')" by blast
next
  assume "jobID \<notin> fst ` set (Jobs w)"
  then have "map_of (Jobs w) jobID = None" by (simp add: map_of_eq_None_iff)
  then show "GetJob w jobID = (Inr None, w)"
    by (simp add: GetJob_def lookupJob_miss)
qed

theorem C8_GetJob_witness:
  "(\<exists>w'. GetJob ci ''build'' = (Inr (Some (plainJob\<lparr>job.Name := ''build''\<rparr>)), w')
          \<and> map_of (Jobs w') ''build'' = Some (Some (plainJob\<lparr>job.Name := ''build''\<rparr>))
          \<and> GetJob w' ''build'' = (Inr (Some (plainJob\<lparr>job.Name := ''build''\<rparr>)), w'))
   \<and> GetJob ci ''deploy'' = (Inr None, ci)"
  using C8_GetJob [of ci "''build''" plainJob] C8_GetJob [of ci "''deploy''" plainJob]
  by (simp add: ci_def plainJob_def)


section \<open>Trigger and dependency lists\<close>

lemma On_scalar:
  "Kind (RawOn w) = ScalarNode \<Longrightarrow>
   On w = (case DecodeString (RawOn w) of Inl err \<Rightarrow> Inl (Fatal err) | Inr v \<Rightarrow> Inr [v])"
  by (simp add: On_def)

lemma On_sequence:
  "Kind (RawOn w) = SequenceNode \<Longrightarrow>
   On w = (case DecodeStrings (RawOn w) of Inl err \<Rightarrow> Inl (Fatal err) | Inr vs \<Rightarrow> Inr vs)"
  by (simp add: On_def)

lemma On_mapping:
  "Kind (RawOn w) = MappingNode \<Longrightarrow>
   On w = (case DecodeMap (RawOn w) of Inl err \<Rightarrow> Inl (Fatal err) | Inr m \<Rightarrow> Inr (map fst m))"
  by (simp add: On_def)

lemma On_other:
  "Kind (RawOn w) \<notin> {ScalarNode, SequenceNode, MappingNode} \<Longrightarrow> On w = Inr []"
  by (cases "Kind (RawOn w)") (simp_all add: On_def)

lemma Needs_scalar:
  "Kind (RawNeeds j) = ScalarNode \<Longrightarrow>
   Needs j = (case DecodeString (RawNeeds j) of Inl err \<Rightarrow> Inl (Fatal err) | Inr v \<Rightarrow> Inr [v])"
  by (simp add: Needs_def)

lemma Needs_sequence:
  "Kind (RawNeeds j) = SequenceNode \<Longrightarrow>
   Needs j = (case DecodeStrings (RawNeeds j) of Inl err \<Rightarrow> Inl (Fatal err) | Inr vs \<Rightarrow> Inr vs)"
  by (simp add: Needs_def)

lemma Needs_other:
  "Kind (RawNeeds j) \<notin> {ScalarNode, SequenceNode} \<Longrightarrow> Needs j = Inr []"
  by (cases "Kind (RawNeeds j)") (simp_all add: Needs_def)

text \<open>
  Claim C5, amended. \<open>On\<close> and \<open>Needs\<close> do the same on a scalar node (a one-element
  sequence with the string \<open>Decode\<close> gives for the node), on a sequence node (the list of
  strings \<open>Decode\<close> gives for it, as it is) and on the kinds without a case (the empty
  sequence); where \<open>Decode\<close> returns an error both end in \<open>log.Fatal\<close>. On a mapping node they
  differ: \<open>On\<close> yields the keys of the decoded mapping, in an order that is not specified, and
  \<open>Needs\<close>, which has no case for mappings, yields the empty sequence and does not decode.
\<close>

theorem C5_On_Needs:
  "(Kind (RawOn w) = ScalarNode \<and> DecodeString (RawOn w) = Inr v \<longrightarrow> On w = Inr [v])
   \<and> (Kind (RawNeeds j) = ScalarNode \<and> DecodeString (RawNeeds j) = Inr v \<longrightarrow> Needs j = Inr [v])
   \<and> (Kind (RawOn w) = ScalarNode \<and> DecodeString (RawOn w) = Inl err \<longrightarrow> On w = Inl (Fatal err))
   \<and> (Kind (RawNeeds j) = ScalarNode \<and> DecodeString (RawNeeds j) = Inl err \<longrightarrow>
        Needs j = Inl (Fatal err))
   \<and> (Kind (RawOn w) = SequenceNode \<and> DecodeStrings (RawOn w) = Inr vs \<longrightarrow> On w = Inr vs)
   \<and> (Kind (RawNeeds j) = SequenceNode \<and> DecodeStrings (RawNeeds j) = Inr vs \<longrightarrow> Needs j = Inr vs)
   \<and> (Kind (RawOn w) = SequenceNode \<and> DecodeStrings (RawOn w) = Inl err \<longrightarrow>
        On w = Inl (Fatal err))
   \<and> (Kind (RawNeeds j) = SequenceNode \<and> DecodeStrings (RawNeeds j) = Inl err \<longrightarrow>
        Needs j = Inl (Fatal err))
   \<and> (Kind (RawOn w) = MappingNode \<and> DecodeMap (RawOn w) = Inr m \<longrightarrow>
        (\<exists>keys. On w = Inr keys \<and> mset keys = mset (map fst m)))
   \<and> (Kind (RawOn w) = MappingNode \<and> DecodeMap (RawOn w) = Inl err \<longrightarrow> On w = Inl (Fatal err))
   \<and> (Kind (RawNeeds j) = MappingNode \<longrightarrow> Needs j = Inr [])
   \<and> (Kind (RawOn w) \<notin> {ScalarNode, SequenceNode, MappingNode} \<longrightarrow> On w = Inr [])
   \<and> (Kind (RawNeeds j) \<notin> {ScalarNode, SequenceNode, MappingNode} \<longrightarrow> Needs j = Inr [])"
proof (intro conjI impI)
  assume "Kind (RawOn w) = MappingNode \<and> DecodeMap (RawOn w) = Inr m"
  then have "On w = Inr (map fst m)" by (simp add: On_mapping)
  then show "\<exists>keys. On w = Inr keys \<and> mset keys = mset (map fst m)" by blast
qed (simp_all add: On_scalar On_sequence On_mapping On_other Needs_scalar Needs_sequence
       Needs_other)

theorem C5_On_Needs_witness:
  "(\<exists>keys. On ci = Inr keys \<and> mset keys = mset [''push'', ''pull_request''])
   \<and> Needs (plainJob\<lparr>RawNeeds := scalar ''build''\<rparr>) = Inr [''build'']
   \<and> Needs (plainJob\<lparr>RawNeeds := sequence [''build'', ''lint'']\<rparr>) = Inr [''build'', ''lint'']
   \<and> Needs (plainJob\<lparr>RawNeeds := RawOn ci\<rparr>) = Inr []
   \<and> Needs plainJob = Inr []"
proof -
  let ?m = "[(''push'', IMap []), (''pull_request'', IMap [])]"
  have on: "Kind (RawOn ci) = MappingNode \<and> DecodeMap (RawOn ci) = Inr ?m"
    by (simp add: ci_def mapping_def)
  have "\<exists>keys. On ci = Inr keys \<and> mset keys = mset (map fst ?m)"
    using C5_On_Needs [of ci _ _ _ _ ?m] on by blast
  then have 1: "\<exists>keys. On ci = Inr keys \<and> mset keys = mset [''push'', ''pull_request'']"
    by simp
  have 2: "Needs (plainJob\<lparr>RawNeeds := scalar ''build''\<rparr>) = Inr [''build'']"
    using C5_On_Needs [of _ "''build''" "plainJob\<lparr>RawNeeds := scalar ''build''\<rparr>"]
    by (simp add: scalar_def)
  have 3: "Needs (plainJob\<lparr>RawNeeds := sequence [''build'', ''lint'']\<rparr>) = Inr [''build'', ''lint'']"
    using C5_On_Needs [of _ _ "plainJob\<lparr>RawNeeds := sequence [''build'', ''lint'']\<rparr>" _
        "[''build'', ''lint'']"]
    by (simp add: sequence_def)
  have 4: "Needs (plainJob\<lparr>RawNeeds := RawOn ci\<rparr>) = Inr []"
    using C5_On_Needs [of _ _ "plainJob\<lparr>RawNeeds := RawOn ci\<rparr>"] on by simp
  have 5: "Needs plainJob = Inr []"
    using C5_On_Needs [of _ _ plainJob] by (simp add: plainJob_def absent_def)
  from 1 2 3 4 5 show ?thesis by blast
qed

text \<open>
  Claim C5 as stated fails: on the same mapping node \<open>On\<close> yields the key and \<open>Needs\<close>
  yields nothing.
\<close>

theorem C5_Needs_mapping_counterexample:
  "On (ci\<lparr>RawOn := mapping [(''push'', IMap [])]\<rparr>) = Inr [''push'']
   \<and> Needs (plainJob\<lparr>RawNeeds := mapping [(''push'', IMap [])]\<rparr>) = Inr []"
  by (simp add: On_def Needs_def mapping_def)

end
